theory Spec2Isabelle
  imports Main
begin

section \<open>Edges and Python values the renderer relies on\<close>

text \<open>
  An edge of the dependency graph: \<open>Edge(origin, dest, label)\<close>. The vertex references are
  Python ints, the label is a string; two edges are equal when all three fields are.
\<close>

record edge =
  origin :: int
  dest :: int
  label :: string

text \<open>Python's \<open>str\<close> of an int, as the f-string \<open>f"{edge.origin}{edge.label}"\<close> renders it.\<close>

definition digit_char :: "nat \<Rightarrow> char" where
  "digit_char d = ''0123456789'' ! d"

fun str_nat :: "nat \<Rightarrow> string" where
  "str_nat n = (if n < 10 then [digit_char n] else str_nat (n div 10) @ [digit_char (n mod 10)])"

definition str_int :: "int \<Rightarrow> string" where
  "str_int i = (if i < 0 then CHR ''-'' # str_nat (nat (- i)) else str_nat (nat i))"

text \<open>
  A Python \<open>dict\<close>: an association list in insertion order. Storing under a key that is
  present replaces the value in place; storing under a new key appends the entry.
\<close>

type_synonym ('k, 'v) dict = "('k \<times> 'v) list"

fun dict_get :: "('k, 'v) dict \<Rightarrow> 'k \<Rightarrow> 'v option" where
  "dict_get [] k = None"
| "dict_get ((k', v) # d) k = (if k' = k then Some v else dict_get d k)"

fun dict_set :: "('k, 'v) dict \<Rightarrow> 'k \<Rightarrow> 'v \<Rightarrow> ('k, 'v) dict" where
  "dict_set [] k v = [(k, v)]"
| "dict_set ((k', v') # d) k v = (if k' = k then (k, v) # d else (k', v') # dict_set d k v)"

definition dict_values :: "('k, 'v) dict \<Rightarrow> 'v list" where
  "dict_values d = map snd d"

text \<open>\<open>d.get(k, [])\<close>: the list stored under \<open>k\<close>, the empty list when \<open>k\<close> is absent.\<close>

definition dict_get_list :: "('k, 'a list) dict \<Rightarrow> 'k \<Rightarrow> 'a list" where
  "dict_get_list d k = (case dict_get d k of None \<Rightarrow> [] | Some l \<Rightarrow> l)"

section \<open>EdgeGrouper: \<open>group_edges_by_origin_and_label\<close>\<close>

text \<open>
  The bucket key of an edge is \<open>calculate_hash(f"{edge.origin}{edge.label}")\<close>. The function
  \<open>calculate_hash\<close> lives outside the renderer and is a parameter here; the string it is
  applied to is the decimal origin immediately followed by the label.
\<close>

definition origin_and_label :: "edge \<Rightarrow> string" where
  "origin_and_label e = str_int (origin e) @ label e"

text \<open>
  One turn of the \<open>for edge in edges\<close> loop. \<open>not edge_groups.get(h)\<close> is true when the key
  is absent (\<open>None\<close>) and when the stored list is empty; then the bucket is (re)set to
  \<open>[]\<close>. The edge is appended to the bucket afterwards.
\<close>

definition group_step :: "(string \<Rightarrow> 'h) \<Rightarrow> ('h, edge list) dict \<Rightarrow> edge \<Rightarrow> ('h, edge list) dict" where
  "group_step calculate_hash edge_groups e =
     (let origin_and_label_hash = calculate_hash (origin_and_label e);
          edge_groups1 =
            (if dict_get_list edge_groups origin_and_label_hash = []
             then dict_set edge_groups origin_and_label_hash []
             else edge_groups)
      in dict_set edge_groups1 origin_and_label_hash
           (dict_get_list edge_groups1 origin_and_label_hash @ [e]))"

definition group_edges_by_origin_and_label :: "(string \<Rightarrow> 'h) \<Rightarrow> edge list \<Rightarrow> edge list list" where
  "group_edges_by_origin_and_label calculate_hash edges =
     dict_values (foldl (group_step calculate_hash) [] edges)"

section \<open>The graph collaborator\<close>

text \<open>
  \<open>LocalGraph\<close> as the renderer reads it: the vertex list (blocks, opaque here; a vertex
  reference is an index into it) and the two adjacency dictionaries from a vertex to its
  incoming and outgoing edges.
\<close>

record 'b local_graph =
  vertices :: "'b list"
  in_edges :: "(int, edge list) dict"
  out_edges :: "(int, edge list) dict"

text \<open>
  Modelled from the spec: \<open>LocalGraph.get_vertices_with_degrees_conditions\<close> is not part of
  the renderer's file. The spec gives
  \<open>vertices_with_degree(out_degree_predicate, in_degree_predicate) -> sequence of VertexRef\<close>:
  the vertices whose out-degree and in-degree satisfy the two predicates; a degree is the
  number of edges the adjacency dictionary holds for the vertex.
\<close>

definition out_degree :: "'b local_graph \<Rightarrow> int \<Rightarrow> nat" where
  "out_degree g v = length (dict_get_list (out_edges g) v)"

definition in_degree :: "'b local_graph \<Rightarrow> int \<Rightarrow> nat" where
  "in_degree g v = length (dict_get_list (in_edges g) v)"

definition get_vertices_with_degrees_conditions ::
  "'b local_graph \<Rightarrow> (nat \<Rightarrow> bool) \<Rightarrow> (nat \<Rightarrow> bool) \<Rightarrow> int list" where
  "get_vertices_with_degrees_conditions g out_degree_cond in_degree_cond =
     filter (\<lambda>v. out_degree_cond (out_degree g v) \<and> in_degree_cond (in_degree g v))
       (map int [0..<length (vertices g)])"

text \<open>
  Modelled from the spec: \<open>LocalGraph.get_in_edges\<close> is not part of the renderer's file.
  The spec gives \<open>in_edges(vertex_refs) -> sequence of Edge\<close>: the edges entering the given
  vertices, here vertex by vertex in the order given.
\<close>

definition get_in_edges :: "'b local_graph \<Rightarrow> int list \<Rightarrow> edge list" where
  "get_in_edges g end_vertices = concat (map (dict_get_list (in_edges g)) end_vertices)"

section \<open>The renderer\<close>

text \<open>
  What a raised exception can be: \<open>edges[0]\<close> on an empty list in
  \<open>_edge_evaluation_task\<close>, or whatever the evaluation strategy raises.
\<close>

datatype 'x exn = IndexError | StrategyError 'x

text \<open>
  The records the renderer logs:
  \<open>info("evaluating n edges")\<close>, \<open>warning("Reached 50 graph edge iterations, breaking.")\<close>,
  \<open>info("done evaluating edges")\<close> and \<open>info("done evaluate_non_rendered_values")\<close>.
\<close>

datatype log_record =
  Info_evaluating nat
  | Warning_reached_iterations
  | Info_done_evaluating_edges
  | Info_done_evaluate_non_rendered_values

text \<open>
  A \<open>VariableRenderer\<close> object: its graph, the dispatch mode read from the environment
  at construction, and the collaborators it calls. The abstract method
  \<open>evaluate_vertex_attribute_from_edge\<close> acts on the vertex configurations \<open>'s\<close> (with the
  strategy's private cache) and may raise; \<open>update_vertices_configs\<close> (the graph's) and
  \<open>evaluate_non_rendered_values\<close> (a no-op in the base class, overridable) act on the same
  configurations. \<open>max_workers\<close> only sizes the worker pool and is left out.
\<close>

record ('b, 's, 'x) renderer =
  local_graph :: "'b local_graph"
  run_async :: bool
  calculate_hash :: "string \<Rightarrow> string"
  evaluate_vertex_attribute_from_edge :: "edge list \<Rightarrow> 's \<Rightarrow> 'x option \<times> 's"
  update_vertices_configs :: "'s \<Rightarrow> 's"
  evaluate_non_rendered_values :: "'s \<Rightarrow> 's"

definition MAX_NUMBER_OF_LOOPS :: nat where
  "MAX_NUMBER_OF_LOOPS = 50"

text \<open>
  The state of \<open>render_variables_from_local_graph\<close>: its local variables, the dictionary
  \<open>self.done_edges_by_origin_vertex\<close>, the vertex configurations and the log.
\<close>

record 's render_state =
  end_vertices_indexes :: "int list"
  edges_to_render :: "edge list"
  loops :: nat
  done_edges_by_origin_vertex :: "(int, edge list) dict"
  configs :: 's
  logging :: "log_record list"

text \<open>\<open>_edge_evaluation_task\<close>: evaluates \<open>edges[0]\<close> and returns it.\<close>

definition edge_evaluation_task ::
  "('b, 's, 'x) renderer \<Rightarrow> edge list list \<Rightarrow> 's \<Rightarrow> ('x exn + edge list) \<times> 's" where
  "edge_evaluation_task R edges s =
     (case edges of
        [] \<Rightarrow> (Inl IndexError, s)
      | inner_edges # _ \<Rightarrow>
          (case evaluate_vertex_attribute_from_edge R inner_edges s of
             (Some x, s') \<Rightarrow> (Inl (StrategyError x), s')
           | (None, s') \<Rightarrow> (Inr inner_edges, s')))"

text \<open>
  The sequential branch: \<open>for edge_group in edges_groups: self._edge_evaluation_task([edge_group])\<close>.
  There is no \<open>try\<close> around the call: an exception leaves the loop, and the method, at once.
\<close>

fun evaluate_groups_sequentially ::
  "('b, 's, 'x) renderer \<Rightarrow> edge list list \<Rightarrow> 's \<Rightarrow> 'x exn option \<times> 's" where
  "evaluate_groups_sequentially R [] s = (None, s)"
| "evaluate_groups_sequentially R (edge_group # edges_groups) s =
     (case edge_evaluation_task R [edge_group] s of
        (Inl x, s') \<Rightarrow> (Some x, s')
      | (Inr _, s') \<Rightarrow> evaluate_groups_sequentially R edges_groups s')"

text \<open>
  Modelled from the spec: \<open>run_function_multithreaded\<close> is not part of the renderer's file.
  The spec's Dispatcher submits every group to a bounded worker pool, returns only when
  all submitted groups have finished, and surfaces a failure to the caller after all groups
  have been attempted (collect and raise). The call passes \<open>max_group_size=1\<close>, so each task
  receives a one-element list of groups. The tasks are run here one after the other in
  submission order; the failure surfaced is the first collected one.
\<close>

fun run_all_tasks ::
  "('a list \<Rightarrow> 's \<Rightarrow> ('e + 'r) \<times> 's) \<Rightarrow> 'a list \<Rightarrow> 's \<Rightarrow> 'e list \<times> 's" where
  "run_all_tasks func [] s = ([], s)"
| "run_all_tasks func (d # data) s =
     (case func [d] s of
        (r, s') \<Rightarrow>
          (case run_all_tasks func data s' of
             (failures, s'') \<Rightarrow> ((case r of Inl x \<Rightarrow> [x] | Inr _ \<Rightarrow> []) @ failures, s'')))"

definition run_function_multithreaded ::
  "('a list \<Rightarrow> 's \<Rightarrow> ('e + 'r) \<times> 's) \<Rightarrow> 'a list \<Rightarrow> 's \<Rightarrow> 'e option \<times> 's" where
  "run_function_multithreaded func data s =
     (case run_all_tasks func data s of
        (failures, s') \<Rightarrow> ((case failures of [] \<Rightarrow> None | x # _ \<Rightarrow> Some x), s'))"

text \<open>
  The first bookkeeping loop: every edge of \<open>edges_to_render\<close> is appended to the list
  stored for its origin, which is created when the origin is not yet a key.
\<close>

fun record_done :: "edge list \<Rightarrow> (int, edge list) dict \<Rightarrow> (int, edge list) dict" where
  "record_done [] done_edges = done_edges"
| "record_done (e # es) done_edges =
     record_done es
       (let d1 = (if dict_get done_edges (origin e) = None
                  then dict_set done_edges (origin e) []
                  else done_edges)
        in dict_set d1 (origin e) (dict_get_list d1 (origin e) @ [e]))"

text \<open>
  The second bookkeeping loop: the origin of an edge joins \<open>end_vertices_indexes\<close> when all
  of its outgoing edges are among the done edges stored for it.
\<close>

fun expand_end_vertices ::
  "'b local_graph \<Rightarrow> (int, edge list) dict \<Rightarrow> edge list \<Rightarrow> int list \<Rightarrow> int list" where
  "expand_end_vertices g done_edges [] end_vertices = end_vertices"
| "expand_end_vertices g done_edges (e # es) end_vertices =
     expand_end_vertices g done_edges es
       (if list_all (\<lambda>oe. oe \<in> set (dict_get_list done_edges (origin e)))
             (dict_get_list (out_edges g) (origin e))
        then end_vertices @ [origin e]
        else end_vertices)"

text \<open>
  The next \<open>edges_to_render\<close>: the edges entering the end vertices that are not yet done,
  without duplicates. Python's \<open>list(set(...))\<close> leaves the order to the hash table; the
  model keeps the order of \<open>remdups\<close>.
\<close>

definition remaining_edges ::
  "'b local_graph \<Rightarrow> (int, edge list) dict \<Rightarrow> int list \<Rightarrow> edge list" where
  "remaining_edges g done_edges end_vertices =
     remdups (filter (\<lambda>e. e \<notin> set (dict_get_list done_edges (origin e)))
                (get_in_edges g end_vertices))"

text \<open>
  One execution of the body of the \<open>while\<close> loop, up to and including \<open>loops += 1\<close>. An
  exception raised by the dispatch leaves the body before any bookkeeping.
\<close>

definition loop_body ::
  "('b, 's, 'x) renderer \<Rightarrow> 's render_state \<Rightarrow> 'x exn option \<times> 's render_state" where
  "loop_body R st =
     (let st1 = st\<lparr>logging := logging st @ [Info_evaluating (length (edges_to_render st))]\<rparr>;
          edges_groups = group_edges_by_origin_and_label (calculate_hash R) (edges_to_render st)
      in case (if run_async R
               then run_function_multithreaded (edge_evaluation_task R) edges_groups (configs st)
               else evaluate_groups_sequentially R edges_groups (configs st)) of
           (Some x, s') \<Rightarrow> (Some x, st1\<lparr>configs := s'\<rparr>)
         | (None, s') \<Rightarrow>
             (let done_edges = record_done (edges_to_render st) (done_edges_by_origin_vertex st);
                  end_vertices = expand_end_vertices (local_graph R) done_edges
                                   (edges_to_render st) (end_vertices_indexes st)
              in (None, st1\<lparr>end_vertices_indexes := end_vertices,
                             edges_to_render := remaining_edges (local_graph R) done_edges end_vertices,
                             loops := loops st + 1,
                             done_edges_by_origin_vertex := done_edges,
                             configs := s'\<rparr>)))"

text \<open>
  The \<open>while len(edges_to_render) > 0\<close> loop with its \<open>break\<close> when \<open>loops\<close> reaches the
  bound.
\<close>

function render_loop ::
  "('b, 's, 'x) renderer \<Rightarrow> 's render_state \<Rightarrow> 'x exn option \<times> 's render_state" where
  "render_loop R st =
     (if length (edges_to_render st) > 0 then
        (case loop_body R st of
           (Some x, st') \<Rightarrow> (Some x, st')
         | (None, st') \<Rightarrow>
             if loops st' \<ge> MAX_NUMBER_OF_LOOPS
             then (None, st'\<lparr>logging := logging st' @ [Warning_reached_iterations]\<rparr>)
             else render_loop R st')
      else (None, st))"
  by pat_completeness auto
termination
  apply (relation "measure (\<lambda>(R, st). MAX_NUMBER_OF_LOOPS - loops st)")
   apply simp
  apply (auto simp: loop_body_def Let_def split: prod.splits option.splits if_splits)
  done

declare render_loop.simps [simp del]

text \<open>
  The state in which \<open>render_variables_from_local_graph\<close> enters its loop, on a renderer as
  \<open>__init__\<close> leaves it (\<open>done_edges_by_origin_vertex = {}\<close>) and the configurations \<open>s\<close>:
  the end vertices are those with out-degree 0 and in-degree above 0, the edges to render
  are the edges entering them.
\<close>

definition initial_render_state :: "('b, 's, 'x) renderer \<Rightarrow> 's \<Rightarrow> 's render_state" where
  "initial_render_state R s =
     (let end_vertices = get_vertices_with_degrees_conditions (local_graph R)
                           (\<lambda>degree. degree = 0) (\<lambda>degree. degree > 0)
      in \<lparr>end_vertices_indexes = end_vertices,
          edges_to_render = get_in_edges (local_graph R) end_vertices,
          loops = 0,
          done_edges_by_origin_vertex = [],
          configs = s,
          logging = []\<rparr>)"

text \<open>
  \<open>render_variables_from_local_graph\<close>: the loop, then \<open>update_vertices_configs\<close>, then
  \<open>evaluate_non_rendered_values\<close>. The result is the exception that left the method, if
  any, and the state reached.
\<close>

definition render_variables_from_local_graph ::
  "('b, 's, 'x) renderer \<Rightarrow> 's \<Rightarrow> 'x exn option \<times> 's render_state" where
  "render_variables_from_local_graph R s =
     (case render_loop R (initial_render_state R s) of
        (Some x, st) \<Rightarrow> (Some x, st)
      | (None, st) \<Rightarrow>
          (None, st\<lparr>configs := evaluate_non_rendered_values R
                                   (update_vertices_configs R (configs st)),
                     logging := logging st @ [Info_done_evaluating_edges,
                                              Info_done_evaluate_non_rendered_values]\<rparr>))"

text \<open>How many times the loop body was entered: the number of \<open>evaluating n edges\<close> records.\<close>

fun iterations :: "log_record list \<Rightarrow> nat" where
  "iterations [] = 0"
| "iterations (Info_evaluating n # rs) = Suc (iterations rs)"
| "iterations (_ # rs) = iterations rs"


section \<open>The value cache created by \<open>__init__\<close>\<close>

text \<open>
  \<open>self.replace_cache = [{}] * len(local_graph.vertices)\<close>. Dictionaries are objects: the
  heap maps an address to the dictionary stored there, and a list holds addresses. The
  display \<open>{}\<close> is evaluated once and allocates one dictionary; \<open>[a] * n\<close> builds a list
  that repeats the reference \<open>a\<close>.
\<close>

record 'v cache_heap =
  replace_cache :: "nat list"
  dict_objects :: "(nat, (string, 'v) dict) dict"

definition list_repeat :: "'a list \<Rightarrow> nat \<Rightarrow> 'a list" where
  "list_repeat xs n = concat (replicate n xs)"

definition init_replace_cache :: "'b local_graph \<Rightarrow> 'v cache_heap" where
  "init_replace_cache g =
     (let a = 0;
          heap = [(a, [])]
      in \<lparr>replace_cache = list_repeat [a] (length (vertices g)), dict_objects = heap\<rparr>)"

text \<open>Python's list indexing: a negative index counts from the end, out of range raises.\<close>

definition list_index :: "'a list \<Rightarrow> int \<Rightarrow> 'a option" where
  "list_index xs i =
     (if 0 \<le> i \<and> i < int (length xs) then Some (xs ! nat i)
      else if i < 0 \<and> - int (length xs) \<le> i then Some (xs ! nat (int (length xs) + i))
      else None)"

text \<open>
  What the strategy does with a slot: \<open>self.replace_cache[i][key] = val\<close> mutates the
  dictionary the slot refers to, and \<open>self.replace_cache[i]\<close> reads it. \<open>None\<close> stands for
  the \<open>IndexError\<close> of a slot that does not exist.
\<close>

definition cache_store :: "'v cache_heap \<Rightarrow> int \<Rightarrow> string \<Rightarrow> 'v \<Rightarrow> 'v cache_heap option" where
  "cache_store c i key val =
     (case list_index (replace_cache c) i of
        None \<Rightarrow> None
      | Some a \<Rightarrow>
          Some (c\<lparr>dict_objects :=
                    dict_set (dict_objects c) a (dict_set (dict_get_list (dict_objects c) a) key val)\<rparr>))"

definition cache_slot :: "'v cache_heap \<Rightarrow> int \<Rightarrow> (string, 'v) dict option" where
  "cache_slot c i =
     (case list_index (replace_cache c) i of
        None \<Rightarrow> None
      | Some a \<Rightarrow> dict_get (dict_objects c) a)"

section \<open>Graphs of the scenarios\<close>

text \<open>The two-vertex cycle \<open>A \<rightarrow> B\<close>, \<open>B \<rightarrow> A\<close>; \<open>A\<close> is vertex 0 and \<open>B\<close> is vertex 1.\<close>

definition two_cycle_graph :: "string local_graph" where
  "two_cycle_graph =
     \<lparr>vertices = [''A'', ''B''],
      in_edges = [(0, [\<lparr>origin = 1, dest = 0, label = ''ref''\<rparr>]),
                  (1, [\<lparr>origin = 0, dest = 1, label = ''ref''\<rparr>])],
      out_edges = [(0, [\<lparr>origin = 0, dest = 1, label = ''ref''\<rparr>]),
                   (1, [\<lparr>origin = 1, dest = 0, label = ''ref''\<rparr>])]\<rparr>"

text \<open>The chain \<open>A \<rightarrow> B \<rightarrow> C \<rightarrow> D\<close>, vertices 0 to 3; only \<open>D\<close> has no outgoing edge.\<close>

definition chain_graph :: "string local_graph" where
  "chain_graph =
     \<lparr>vertices = [''A'', ''B'', ''C'', ''D''],
      in_edges = [(0, []),
                  (1, [\<lparr>origin = 0, dest = 1, label = ''ref''\<rparr>]),
                  (2, [\<lparr>origin = 1, dest = 2, label = ''ref''\<rparr>]),
                  (3, [\<lparr>origin = 2, dest = 3, label = ''ref''\<rparr>])],
      out_edges = [(0, [\<lparr>origin = 0, dest = 1, label = ''ref''\<rparr>]),
                   (1, [\<lparr>origin = 1, dest = 2, label = ''ref''\<rparr>]),
                   (2, [\<lparr>origin = 2, dest = 3, label = ''ref''\<rparr>]),
                   (3, [])]\<rparr>"

text \<open>The three-vertex cycle \<open>0 \<rightarrow> 1 \<rightarrow> 2 \<rightarrow> 0\<close>: every vertex has an outgoing edge.\<close>

definition three_cycle_graph :: "string local_graph" where
  "three_cycle_graph =
     \<lparr>vertices = [''A'', ''B'', ''C''],
      in_edges = [(0, [\<lparr>origin = 2, dest = 0, label = ''ref''\<rparr>]),
                  (1, [\<lparr>origin = 0, dest = 1, label = ''ref''\<rparr>]),
                  (2, [\<lparr>origin = 1, dest = 2, label = ''ref''\<rparr>])],
      out_edges = [(0, [\<lparr>origin = 0, dest = 1, label = ''ref''\<rparr>]),
                   (1, [\<lparr>origin = 1, dest = 2, label = ''ref''\<rparr>]),
                   (2, [\<lparr>origin = 2, dest = 0, label = ''ref''\<rparr>])]\<rparr>"


text \<open>
  A chain of \<open>n\<close> edges \<open>n \<rightarrow> n - 1 \<rightarrow> \<dots> \<rightarrow> 1 \<rightarrow> 0\<close> on \<open>n + 1\<close> vertices; vertex 0 is
  the only one without an outgoing edge.
\<close>

definition chain_edge :: "nat \<Rightarrow> edge" where
  "chain_edge i = \<lparr>origin = int (Suc i), dest = int i, label = ''ref''\<rparr>"

definition descending_chain_graph :: "nat \<Rightarrow> unit local_graph" where
  "descending_chain_graph n =
     \<lparr>vertices = replicate (Suc n) (),
      in_edges = map (\<lambda>i. (int i, [chain_edge i])) [0..<n] @ [(int n, [])],
      out_edges = (0, []) # map (\<lambda>i. (int (Suc i), [chain_edge i])) [0..<n]\<rparr>"

text \<open>
  The state of the loop on such a chain after \<open>k\<close> iterations: the end vertices are 0 to
  \<open>k\<close>, the one edge to render is \<open>k + 1 \<rightarrow> k\<close>, and the edges below it are done.
\<close>

definition chain_done :: "nat \<Rightarrow> (int, edge list) dict" where
  "chain_done k = map (\<lambda>i. (int (Suc i), [chain_edge i])) [0..<k]"

definition chain_state :: "nat \<Rightarrow> 's \<Rightarrow> 's render_state" where
  "chain_state k s =
     \<lparr>end_vertices_indexes = map int [0..<Suc k],
      edges_to_render = [chain_edge k],
      loops = k,
      done_edges_by_origin_vertex = chain_done k,
      configs = s,
      logging = replicate k (Info_evaluating 1)\<rparr>"

text \<open>A strategy that never raises and writes nothing: the configurations stay as they are.\<close>

definition idle_renderer :: "'b local_graph \<Rightarrow> ('b, 's, unit) renderer" where
  "idle_renderer g =
     \<lparr>local_graph = g,
      run_async = False,
      calculate_hash = (\<lambda>data. data),
      evaluate_vertex_attribute_from_edge = (\<lambda>edge_list s. (None, s)),
      update_vertices_configs = (\<lambda>s. s),
      evaluate_non_rendered_values = (\<lambda>s. s)\<rparr>"

text \<open>
  A strategy that records the groups it is given, in order, and raises on the groups a
  predicate selects; the configurations are the record.
\<close>

definition recording_renderer ::
  "string local_graph \<Rightarrow> bool \<Rightarrow> (edge list \<Rightarrow> bool) \<Rightarrow> (string, edge list list, unit) renderer" where
  "recording_renderer g async fails =
     \<lparr>local_graph = g,
      run_async = async,
      calculate_hash = (\<lambda>data. data),
      evaluate_vertex_attribute_from_edge =
        (\<lambda>edge_list s. (if fails edge_list then Some () else None, s @ [edge_list])),
      update_vertices_configs = (\<lambda>s. s),
      evaluate_non_rendered_values = (\<lambda>s. s)\<rparr>"

text \<open>
  The shape of the dictionary the grouping loop builds: no key twice, no empty bucket, and
  every edge of a bucket hashes to the bucket's key.
\<close>

definition bucketed :: "(string \<Rightarrow> 'h) \<Rightarrow> ('h, edge list) dict \<Rightarrow> bool" where
  "bucketed h d \<longleftrightarrow>
     distinct (map fst d) \<and>
     (\<forall>(k, l) \<in> set d. l \<noteq> [] \<and> (\<forall>e \<in> set l. h (origin_and_label e) = k))"

section \<open>Properties of the grouping\<close>

lemma str_int_1: "str_int 1 = ''1''"
  by (simp add: str_int_def digit_char_def)

lemma str_int_12: "str_int 12 = ''12''"
  by (simp add: str_int_def digit_char_def)

text \<open>
  C1. Groups are meant to hold edges of one (origin, label) pair only. The key string has no
  separator between origin and label, so origin 1 with label \<open>2x\<close> and origin 12 with
  label \<open>x\<close> both give \<open>12x\<close>: whatever the hash function \<open>h\<close> is, the two edges land in one
  group although their (origin, label) pairs differ.
\<close>

theorem group_edges_merges_distinct_keys:
  "group_edges_by_origin_and_label h
     [\<lparr>origin = 1, dest = 0, label = ''2x''\<rparr>, \<lparr>origin = 12, dest = 0, label = ''x''\<rparr>]
   = [[\<lparr>origin = 1, dest = 0, label = ''2x''\<rparr>, \<lparr>origin = 12, dest = 0, label = ''x''\<rparr>]]"
  by (simp add: group_edges_by_origin_and_label_def group_step_def origin_and_label_def
      dict_values_def dict_get_list_def str_int_1 str_int_12 Let_def)

subsection \<open>Regrouping\<close>

lemma dict_get_absent: "k \<notin> fst ` set d \<Longrightarrow> dict_get d k = None"
  by (induction d) auto

lemma dict_get_present: "distinct (map fst d) \<Longrightarrow> (k, v) \<in> set d \<Longrightarrow> dict_get d k = Some v"
  by (induction d) (auto simp: rev_image_eqI)

lemma dict_set_absent: "k \<notin> fst ` set d \<Longrightarrow> dict_set d k v = d @ [(k, v)]"
  by (induction d) auto

lemma dict_get_last: "k \<notin> fst ` set p \<Longrightarrow> dict_get (p @ [(k, l)]) k = Some l"
  by (induction p) auto

lemma dict_set_last: "k \<notin> fst ` set p \<Longrightarrow> dict_set (p @ [(k, l)]) k v = p @ [(k, v)]"
  by (induction p) auto

lemma dict_set_keys: "(k, v') \<in> set d \<Longrightarrow> map fst (dict_set d k v) = map fst d"
  by (induction d) auto

lemma dict_set_entries: "x \<in> set (dict_set d k v) \<Longrightarrow> x = (k, v) \<or> x \<in> set d"
  by (induction d) (auto split: if_splits)

lemma group_step_new:
  "h (origin_and_label e) \<notin> fst ` set d \<Longrightarrow>
   group_step h d e = d @ [(h (origin_and_label e), [e])]"
  by (simp add: group_step_def Let_def dict_get_list_def dict_get_absent dict_set_absent
      dict_get_last dict_set_last)

lemma group_step_old:
  "dict_get d (h (origin_and_label e)) = Some l \<Longrightarrow> l \<noteq> [] \<Longrightarrow>
   group_step h d e = dict_set d (h (origin_and_label e)) (l @ [e])"
  by (simp add: group_step_def Let_def dict_get_list_def)

lemma bucketed_step: "bucketed h d \<Longrightarrow> bucketed h (group_step h d e)"
proof (cases "h (origin_and_label e) \<in> fst ` set d")
  case False
  assume "bucketed h d"
  with False show ?thesis
    by (auto simp: group_step_new bucketed_def)
next
  case True
  assume b: "bucketed h d"
  from True obtain l where l: "(h (origin_and_label e), l) \<in> set d" by auto
  with b have get: "dict_get d (h (origin_and_label e)) = Some l" and ne: "l \<noteq> []"
    and keyed: "\<forall>e' \<in> set l. h (origin_and_label e') = h (origin_and_label e)"
    by (auto simp: bucketed_def dict_get_present)
  have "bucketed h (dict_set d (h (origin_and_label e)) (l @ [e]))"
    unfolding bucketed_def
  proof (intro conjI ballI)
    show "distinct (map fst (dict_set d (h (origin_and_label e)) (l @ [e])))"
      using b l by (simp add: dict_set_keys [of _ l] bucketed_def)
  next
    fix x assume "x \<in> set (dict_set d (h (origin_and_label e)) (l @ [e]))"
    then have "x = (h (origin_and_label e), l @ [e]) \<or> x \<in> set d"
      by (rule dict_set_entries)
    then show "case x of (k, l) \<Rightarrow> l \<noteq> [] \<and> (\<forall>e \<in> set l. h (origin_and_label e) = k)"
      using b keyed by (auto simp: bucketed_def)
  qed
  then show ?thesis
    using group_step_old [of d h e l] get ne by simp
qed

lemma bucketed_foldl: "bucketed h d \<Longrightarrow> bucketed h (foldl (group_step h) d es)"
  by (induction es arbitrary: d) (auto simp: bucketed_step)

lemma foldl_same_key_grow:
  "k \<notin> fst ` set p \<Longrightarrow> l \<noteq> [] \<Longrightarrow> \<forall>e \<in> set ys. h (origin_and_label e) = k \<Longrightarrow>
   foldl (group_step h) (p @ [(k, l)]) ys = p @ [(k, l @ ys)]"
proof (induction ys arbitrary: l)
  case Nil
  then show ?case by simp
next
  case (Cons y ys)
  from Cons.prems have "group_step h (p @ [(k, l)]) y = p @ [(k, l @ [y])]"
    using group_step_old [of "p @ [(k, l)]" h y l] by (simp add: dict_get_last dict_set_last)
  with Cons show ?case by simp
qed

lemma foldl_same_key_new:
  assumes "k \<notin> fst ` set p" "ys \<noteq> []" "\<forall>e \<in> set ys. h (origin_and_label e) = k"
  shows "foldl (group_step h) p ys = p @ [(k, ys)]"
proof (cases ys)
  case Nil
  with assms show ?thesis by simp
next
  case (Cons y ys')
  with assms have "group_step h p y = p @ [(k, [y])]"
    using group_step_new [of h y p] by simp
  with Cons assms show ?thesis
    using foldl_same_key_grow [of k p "[y]" ys' h] by simp
qed

lemma foldl_regroup:
  "distinct (map fst d) \<Longrightarrow> fst ` set p \<inter> fst ` set d = {} \<Longrightarrow>
   \<forall>(k, l) \<in> set d. l \<noteq> [] \<and> (\<forall>e \<in> set l. h (origin_and_label e) = k) \<Longrightarrow>
   foldl (group_step h) p (concat (map snd d)) = p @ d"
proof (induction d arbitrary: p)
  case Nil
  then show ?case by simp
next
  case (Cons kl d)
  obtain k l where kl: "kl = (k, l)" by (cases kl)
  from Cons.prems kl have fresh: "k \<notin> fst ` set p" and ne: "l \<noteq> []"
    and keyed: "\<forall>e \<in> set l. h (origin_and_label e) = k"
    by auto
  have first: "foldl (group_step h) p l = p @ [(k, l)]"
    by (rule foldl_same_key_new [OF fresh ne keyed])
  from Cons.prems kl have "fst ` set (p @ [(k, l)]) \<inter> fst ` set d = {}"
    by auto
  with Cons.IH [of "p @ [(k, l)]"] Cons.prems kl
  have "foldl (group_step h) (p @ [(k, l)]) (concat (map snd d)) = (p @ [(k, l)]) @ d"
    by simp
  with first kl show ?case by simp
qed

text \<open>
  C8. Grouping is idempotent: flattening the groups in the order returned and grouping the
  flat sequence again gives the same groups, even in the same order, whatever the hash
  function is.
\<close>

theorem group_edges_idempotent:
  "group_edges_by_origin_and_label h (concat (group_edges_by_origin_and_label h edges))
   = group_edges_by_origin_and_label h edges"
proof -
  have "bucketed h (foldl (group_step h) [] edges)"
    by (rule bucketed_foldl) (simp add: bucketed_def)
  then have "foldl (group_step h) [] (concat (map snd (foldl (group_step h) [] edges)))
             = [] @ foldl (group_step h) [] edges"
    by (intro foldl_regroup) (auto simp: bucketed_def)
  then show ?thesis
    by (simp add: group_edges_by_origin_and_label_def dict_values_def)
qed


section \<open>Properties of the rendering loop\<close>

lemma iterations_append: "iterations (rs @ rs') = iterations rs + iterations rs'"
  by (induction rs rule: iterations.induct) auto

lemma loop_body_returns:
  "loop_body R st = (None, st') \<Longrightarrow>
   loops st' = Suc (loops st) \<and>
   logging st' = logging st @ [Info_evaluating (length (edges_to_render st))]"
  by (auto simp: loop_body_def Let_def split: prod.splits option.splits)

lemma loop_body_raises:
  "loop_body R st = (Some x, st') \<Longrightarrow>
   loops st' = loops st \<and>
   logging st' = logging st @ [Info_evaluating (length (edges_to_render st))]"
  by (auto simp: loop_body_def Let_def split: prod.splits option.splits)

lemma render_loop_bounded:
  "iterations (logging st) = loops st \<Longrightarrow> loops st < MAX_NUMBER_OF_LOOPS \<Longrightarrow>
   iterations (logging (snd (render_loop R st))) \<le> MAX_NUMBER_OF_LOOPS \<and>
   loops (snd (render_loop R st)) \<le> iterations (logging (snd (render_loop R st)))"
proof (induction R st rule: render_loop.induct)
  case (1 R st)
  show ?case
  proof (cases "0 < length (edges_to_render st)")
    case False
    with "1.prems" show ?thesis by (simp add: render_loop.simps)
  next
    case True
    obtain r st' where body: "loop_body R st = (r, st')" by (cases "loop_body R st")
    show ?thesis
    proof (cases r)
      case (Some x)
      with body True "1.prems" loop_body_raises [of R st x st'] show ?thesis
        by (simp add: render_loop.simps iterations_append)
    next
      case None
      with body loop_body_returns [of R st st']
      have st': "loops st' = Suc (loops st)" "iterations (logging st') = Suc (loops st)"
        using "1.prems" by (simp_all add: iterations_append)
      show ?thesis
      proof (cases "MAX_NUMBER_OF_LOOPS \<le> loops st'")
        case True
        with \<open>0 < length (edges_to_render st)\<close> body None st' "1.prems" show ?thesis
          by (simp add: render_loop.simps iterations_append)
      next
        case False
        have "iterations (logging (snd (render_loop R st'))) \<le> MAX_NUMBER_OF_LOOPS \<and>
              loops (snd (render_loop R st')) \<le> iterations (logging (snd (render_loop R st')))"
          using "1.IH" [of None st'] \<open>0 < length (edges_to_render st)\<close> body None st' False
          by simp
        with \<open>0 < length (edges_to_render st)\<close> body None False show ?thesis
          by (simp add: render_loop.simps)
      qed
    qed
  qed
qed

text \<open>
  C5. Whatever the graph, the strategy and the dispatch mode, the body of the main loop is
  entered at most \<open>MAX_NUMBER_OF_LOOPS\<close> = 50 times, and the counter never exceeds the
  bound. The loop is a total function (its termination is proved with the measure
  \<open>MAX_NUMBER_OF_LOOPS - loops\<close>), so the method returns on every graph, cyclic or not.
\<close>

theorem render_iterations_bounded:
  "iterations (logging (snd (render_variables_from_local_graph R s))) \<le> MAX_NUMBER_OF_LOOPS \<and>
   loops (snd (render_variables_from_local_graph R s)) \<le> MAX_NUMBER_OF_LOOPS \<and>
   MAX_NUMBER_OF_LOOPS = 50"
proof -
  have "iterations (logging (snd (render_loop R (initial_render_state R s)))) \<le> MAX_NUMBER_OF_LOOPS \<and>
        loops (snd (render_loop R (initial_render_state R s)))
          \<le> iterations (logging (snd (render_loop R (initial_render_state R s))))"
    using render_loop_bounded [of "initial_render_state R s" R]
    by (simp add: initial_render_state_def Let_def MAX_NUMBER_OF_LOOPS_def)
  then show ?thesis
    by (auto simp: render_variables_from_local_graph_def iterations_append MAX_NUMBER_OF_LOOPS_def
        split: prod.splits option.splits)
qed

subsection \<open>Graphs without an end vertex\<close>

lemma no_sink_two_cycle:
  "get_vertices_with_degrees_conditions two_cycle_graph (\<lambda>degree. degree = 0) (\<lambda>degree. 0 < degree) = []"
  by (simp add: get_vertices_with_degrees_conditions_def out_degree_def in_degree_def two_cycle_graph_def dict_get_list_def)

lemma render_loop_nothing_pending:
  "edges_to_render st = [] \<Longrightarrow> render_loop R st = (None, st)"
  by (simp add: render_loop.simps)

lemma initial_no_end_vertices:
  "get_vertices_with_degrees_conditions (local_graph R) (\<lambda>degree. degree = 0) (\<lambda>degree. 0 < degree) = [] \<Longrightarrow>
   initial_render_state R s =
     \<lparr>end_vertices_indexes = [], edges_to_render = [], loops = 0,
      done_edges_by_origin_vertex = [], configs = s, logging = []\<rparr>"
  by (simp add: initial_render_state_def get_in_edges_def)

text \<open>
  C10. When no vertex has out-degree 0 and in-degree above 0 (as when every vertex has an
  outgoing edge: the witness is a cycle of three vertices), the initial set of edges to
  render is empty and the loop body is never entered: no \<open>evaluating\<close> record and no
  warning are logged, the counter stays 0, the strategy is never called. The method still
  returns normally, with the configurations passed through \<open>update_vertices_configs\<close> and
  then \<open>evaluate_non_rendered_values\<close>, and both closing records logged.
\<close>

theorem render_without_end_vertices:
  assumes "\<forall>v < length (vertices (local_graph R)).
             \<not> (out_degree (local_graph R) (int v) = 0 \<and> 0 < in_degree (local_graph R) (int v))"
  shows "edges_to_render (initial_render_state R s) = [] \<and>
         render_variables_from_local_graph R s =
           (None, \<lparr>end_vertices_indexes = [], edges_to_render = [], loops = 0,
                   done_edges_by_origin_vertex = [],
                   configs = evaluate_non_rendered_values R (update_vertices_configs R s),
                   logging = [Info_done_evaluating_edges,
                              Info_done_evaluate_non_rendered_values]\<rparr>)"
proof -
  have "get_vertices_with_degrees_conditions (local_graph R)
          (\<lambda>degree. degree = 0) (\<lambda>degree. 0 < degree) = []"
    unfolding get_vertices_with_degrees_conditions_def filter_empty_conv
    using assms by auto
  then show ?thesis
    by (simp add: render_variables_from_local_graph_def initial_no_end_vertices
        render_loop_nothing_pending)
qed

theorem render_without_end_vertices_witness:
  "length (vertices three_cycle_graph) = 3 \<and>
   out_degree three_cycle_graph 0 = 1 \<and>
   out_degree three_cycle_graph 1 = 1 \<and>
   out_degree three_cycle_graph 2 = 1 \<and>
   render_variables_from_local_graph (recording_renderer three_cycle_graph True (\<lambda>g. False)) [] =
     (None, \<lparr>end_vertices_indexes = [], edges_to_render = [], loops = 0,
             done_edges_by_origin_vertex = [], configs = [],
             logging = [Info_done_evaluating_edges, Info_done_evaluate_non_rendered_values]\<rparr>)"
proof -
  have deg: "length (vertices three_cycle_graph) = 3" "out_degree three_cycle_graph 0 = 1"
    "out_degree three_cycle_graph 1 = 1" "out_degree three_cycle_graph 2 = 1"
    by (simp_all add: three_cycle_graph_def out_degree_def dict_get_list_def)
  have "\<forall>v < length (vertices three_cycle_graph). out_degree three_cycle_graph (int v) \<noteq> 0"
    using deg by (auto simp: less_Suc_eq numeral_3_eq_3)
  then have "\<forall>v < length (vertices (local_graph (recording_renderer three_cycle_graph True (\<lambda>g. False)))).
      \<not> (out_degree (local_graph (recording_renderer three_cycle_graph True (\<lambda>g. False))) (int v) = 0 \<and>
         0 < in_degree (local_graph (recording_renderer three_cycle_graph True (\<lambda>g. False))) (int v))"
    by (simp add: recording_renderer_def)
  from render_without_end_vertices [OF this, of "[]"] deg show ?thesis
    by (simp add: recording_renderer_def)
qed

text \<open>
  C3, as the code has it. On the two-vertex cycle neither vertex has out-degree 0, so the
  loop body is never entered: the counter stays 0, the bound is not reached and no warning
  is logged. The strategy is never called, so both vertices stay unresolved; the method
  then calls \<open>update_vertices_configs\<close> and the fallback \<open>evaluate_non_rendered_values\<close>,
  and the final configurations are whatever the fallback assigns.
\<close>

theorem two_cycle_render:
  "render_variables_from_local_graph (R\<lparr>local_graph := two_cycle_graph\<rparr>) s =
     (None, \<lparr>end_vertices_indexes = [], edges_to_render = [], loops = 0,
             done_edges_by_origin_vertex = [],
             configs = evaluate_non_rendered_values R (update_vertices_configs R s),
             logging = [Info_done_evaluating_edges, Info_done_evaluate_non_rendered_values]\<rparr>)"
  by (simp add: render_variables_from_local_graph_def initial_no_end_vertices no_sink_two_cycle
      render_loop_nothing_pending)

text \<open>
  C3 as stated does not hold: on the two-vertex cycle the number of iterations is 0, not
  the bound of 50.
\<close>

theorem two_cycle_never_reaches_bound:
  "iterations (logging (snd (render_variables_from_local_graph
      (recording_renderer two_cycle_graph False (\<lambda>g. False)) []))) = 0 \<and>
   iterations (logging (snd (render_variables_from_local_graph
      (recording_renderer two_cycle_graph False (\<lambda>g. False)) []))) \<noteq> MAX_NUMBER_OF_LOOPS"
  by (simp add: render_variables_from_local_graph_def initial_no_end_vertices no_sink_two_cycle
      render_loop_nothing_pending recording_renderer_def MAX_NUMBER_OF_LOOPS_def)

subsection \<open>The chain of four vertices\<close>

lemma sinks_chain:
  "get_vertices_with_degrees_conditions chain_graph (\<lambda>degree. degree = 0) (\<lambda>degree. 0 < degree) = [3]"
  by (simp add: get_vertices_with_degrees_conditions_def out_degree_def in_degree_def chain_graph_def dict_get_list_def)

lemma group_single: "group_edges_by_origin_and_label h [e] = [[e]]"
  by (simp add: group_edges_by_origin_and_label_def group_step_def dict_values_def dict_get_list_def Let_def)

lemma chain_lookups:
  "dict_get_list (in_edges chain_graph) 3 = [\<lparr>origin = 2, dest = 3, label = ''ref''\<rparr>]"
  "dict_get_list (in_edges chain_graph) 2 = [\<lparr>origin = 1, dest = 2, label = ''ref''\<rparr>]"
  "dict_get_list (in_edges chain_graph) 1 = [\<lparr>origin = 0, dest = 1, label = ''ref''\<rparr>]"
  "dict_get_list (in_edges chain_graph) 0 = []"
  "dict_get_list (out_edges chain_graph) 2 = [\<lparr>origin = 2, dest = 3, label = ''ref''\<rparr>]"
  "dict_get_list (out_edges chain_graph) 1 = [\<lparr>origin = 1, dest = 2, label = ''ref''\<rparr>]"
  "dict_get_list (out_edges chain_graph) 0 = [\<lparr>origin = 0, dest = 1, label = ''ref''\<rparr>]"
  by (simp_all add: chain_graph_def dict_get_list_def)

lemma chain_render:
  assumes lg: "local_graph R = chain_graph"
    and ev: "evaluate_vertex_attribute_from_edge R = (\<lambda>g s. (None, f g s))"
  shows "render_variables_from_local_graph R s =
   (None,
    \<lparr>end_vertices_indexes = [3, 2, 1, 0], edges_to_render = [], loops = 3,
     done_edges_by_origin_vertex =
       [(2, [\<lparr>origin = 2, dest = 3, label = ''ref''\<rparr>]),
        (1, [\<lparr>origin = 1, dest = 2, label = ''ref''\<rparr>]),
        (0, [\<lparr>origin = 0, dest = 1, label = ''ref''\<rparr>])],
     configs = evaluate_non_rendered_values R (update_vertices_configs R
                 (f [\<lparr>origin = 0, dest = 1, label = ''ref''\<rparr>]
                   (f [\<lparr>origin = 1, dest = 2, label = ''ref''\<rparr>]
                     (f [\<lparr>origin = 2, dest = 3, label = ''ref''\<rparr>] s)))),
     logging = [Info_evaluating 1, Info_evaluating 1, Info_evaluating 1,
                Info_done_evaluating_edges, Info_done_evaluate_non_rendered_values]\<rparr>)"
proof -
  have init: "initial_render_state R s =
     \<lparr>end_vertices_indexes = [3], edges_to_render = [\<lparr>origin = 2, dest = 3, label = ''ref''\<rparr>],
      loops = 0, done_edges_by_origin_vertex = [], configs = s, logging = []\<rparr>"
    by (simp add: initial_render_state_def lg sinks_chain get_in_edges_def chain_lookups)
  show ?thesis
  proof (cases "run_async R")
    case True
    then show ?thesis
      by (simp add: render_variables_from_local_graph_def init render_loop.simps loop_body_def
          group_single edge_evaluation_task_def run_function_multithreaded_def Let_def lg ev
          remaining_edges_def get_in_edges_def chain_lookups dict_get_list_def [of "_ # _"]
          dict_get_list_def [of "[]"] MAX_NUMBER_OF_LOOPS_def)
  next
    case False
    then show ?thesis
      by (simp add: render_variables_from_local_graph_def init render_loop.simps loop_body_def
          group_single edge_evaluation_task_def Let_def lg ev
          remaining_edges_def get_in_edges_def chain_lookups dict_get_list_def [of "_ # _"]
          dict_get_list_def [of "[]"] MAX_NUMBER_OF_LOOPS_def)
  qed
qed

text \<open>
  C7. On the chain \<open>A \<rightarrow> B \<rightarrow> C \<rightarrow> D\<close>, with any strategy that returns normally (it maps
  the configurations by \<open>f\<close>), in either dispatch mode and with any hash function: the
  loop body runs exactly three times, once per link (\<open>C \<rightarrow> D\<close>, then \<open>B \<rightarrow> C\<close>, then
  \<open>A \<rightarrow> B\<close>), the set of edges to render is then empty, and the loop ends without the
  warning.
\<close>

theorem chain_three_iterations:
  "render_variables_from_local_graph
     (R\<lparr>local_graph := chain_graph,
        evaluate_vertex_attribute_from_edge := (\<lambda>g s. (None, f g s))\<rparr>) s =
   (None,
    \<lparr>end_vertices_indexes = [3, 2, 1, 0], edges_to_render = [], loops = 3,
     done_edges_by_origin_vertex =
       [(2, [\<lparr>origin = 2, dest = 3, label = ''ref''\<rparr>]),
        (1, [\<lparr>origin = 1, dest = 2, label = ''ref''\<rparr>]),
        (0, [\<lparr>origin = 0, dest = 1, label = ''ref''\<rparr>])],
     configs = evaluate_non_rendered_values R (update_vertices_configs R
                 (f [\<lparr>origin = 0, dest = 1, label = ''ref''\<rparr>]
                   (f [\<lparr>origin = 1, dest = 2, label = ''ref''\<rparr>]
                     (f [\<lparr>origin = 2, dest = 3, label = ''ref''\<rparr>] s)))),
     logging = [Info_evaluating 1, Info_evaluating 1, Info_evaluating 1,
                Info_done_evaluating_edges, Info_done_evaluate_non_rendered_values]\<rparr>)"
  using chain_render [of "R\<lparr>local_graph := chain_graph,
        evaluate_vertex_attribute_from_edge := (\<lambda>g s. (None, f g s))\<rparr>" f s]
  by simp


subsection \<open>Bookkeeping after a dispatch\<close>











subsection \<open>A strategy that raises\<close>













subsection \<open>Reaching the bound\<close>

lemma render_loop_reaches_bound:
  "loops st < MAX_NUMBER_OF_LOOPS \<Longrightarrow>
   loops (snd (render_loop R st)) = MAX_NUMBER_OF_LOOPS \<Longrightarrow>
   fst (render_loop R st) = None \<and>
   (\<exists>rs. logging (snd (render_loop R st)) = rs @ [Warning_reached_iterations])"
proof (induction R st rule: render_loop.induct)
  case (1 R st)
  show ?case
  proof (cases "0 < length (edges_to_render st)")
    case False
    with "1.prems" show ?thesis by (simp add: render_loop.simps)
  next
    case True
    obtain r st' where body: "loop_body R st = (r, st')" by (cases "loop_body R st")
    show ?thesis
    proof (cases r)
      case (Some x)
      with body True "1.prems" loop_body_raises [of R st x st'] show ?thesis
        by (simp add: render_loop.simps)
    next
      case None
      with body loop_body_returns [of R st st'] have st': "loops st' = Suc (loops st)"
        by simp
      show ?thesis
      proof (cases "MAX_NUMBER_OF_LOOPS \<le> loops st'")
        case True
        with \<open>0 < length (edges_to_render st)\<close> body None show ?thesis
          by (simp add: render_loop.simps)
      next
        case False
        have "loops (snd (render_loop R st')) = MAX_NUMBER_OF_LOOPS"
          using "1.prems"(2) \<open>0 < length (edges_to_render st)\<close> body None False
          by (simp add: render_loop.simps)
        then have "fst (render_loop R st') = None \<and>
              (\<exists>rs. logging (snd (render_loop R st')) = rs @ [Warning_reached_iterations])"
          using "1.IH" [of None st'] \<open>0 < length (edges_to_render st)\<close> body None False
          by simp
        with \<open>0 < length (edges_to_render st)\<close> body None False show ?thesis
          by (simp add: render_loop.simps)
      qed
    qed
  qed
qed

lemma dict_get_append:
  "dict_get (d1 @ d2) k = (case dict_get d1 k of None \<Rightarrow> dict_get d2 k | Some v \<Rightarrow> Some v)"
  by (induction d1) auto

lemma dict_get_indexed:
  "inj f \<Longrightarrow>
   dict_get (map (\<lambda>i. (int (f i), v i)) xs) (int (f j)) = (if j \<in> set xs then Some (v j) else None)"
  by (induction xs) (auto dest: injD)

lemma dict_set_unbound: "dict_get d k = None \<Longrightarrow> dict_set d k v = d @ [(k, v)]"
  by (induction d) (auto split: if_splits)

lemma dict_set_unbound_last: "dict_get p k = None \<Longrightarrow> dict_set (p @ [(k, l)]) k v = p @ [(k, v)]"
  by (induction p) (auto split: if_splits)

lemma chain_in_edges:
  "k \<le> n \<Longrightarrow>
   dict_get_list (in_edges (descending_chain_graph n)) (int k) = (if k < n then [chain_edge k] else [])"
  using dict_get_indexed [of "\<lambda>i. i" "\<lambda>i. [chain_edge i]" "[0..<n]" k]
  by (auto simp: descending_chain_graph_def dict_get_list_def dict_get_append)

lemma chain_out_edges:
  "k < n \<Longrightarrow> dict_get_list (out_edges (descending_chain_graph n)) (int (Suc k)) = [chain_edge k]"
  using dict_get_indexed [of Suc "\<lambda>i. [chain_edge i]" "[0..<n]" k]
  by (simp add: descending_chain_graph_def dict_get_list_def)

lemma chain_out_edges_0:
  "dict_get_list (out_edges (descending_chain_graph n)) 0 = []"
  by (simp add: descending_chain_graph_def dict_get_list_def)

lemma origin_chain_edge: "origin (chain_edge k) = int (Suc k)"
  by (simp add: chain_edge_def)

lemma chain_done_get:
  "dict_get (chain_done k) (int (Suc j)) = (if j < k then Some [chain_edge j] else None)"
  using dict_get_indexed [of Suc "\<lambda>i. [chain_edge i]" "[0..<k]" j]
  by (simp add: chain_done_def del: of_nat_Suc)

lemma chain_done_Suc: "chain_done (Suc k) = chain_done k @ [(int (Suc k), [chain_edge k])]"
  by (simp add: chain_done_def del: of_nat_Suc)

lemma chain_record_done: "record_done [chain_edge k] (chain_done k) = chain_done (Suc k)"
  by (simp add: origin_chain_edge chain_done_get chain_done_Suc Let_def dict_set_unbound
      dict_set_unbound_last dict_get_list_def dict_get_append del: of_nat_Suc)

lemma chain_get_in_edges:
  "k < n \<Longrightarrow>
   get_in_edges (descending_chain_graph n) (map int [0..<Suc k]) = map chain_edge [0..<Suc k]"
proof (induction k)
  case 0
  then show ?case
    using chain_in_edges [of 0 n] by (simp add: get_in_edges_def)
next
  case (Suc k)
  then have "get_in_edges (descending_chain_graph n) (map int [0..<Suc k]) = map chain_edge [0..<Suc k]"
    by simp
  moreover have "dict_get_list (in_edges (descending_chain_graph n)) (int (Suc k)) = [chain_edge (Suc k)]"
    using chain_in_edges [of "Suc k" n] Suc.prems by simp
  ultimately show ?case
    by (simp add: get_in_edges_def del: of_nat_Suc)
qed

lemma chain_remaining:
  assumes "Suc k < n"
  shows "remaining_edges (descending_chain_graph n) (chain_done (Suc k)) (map int [0..<Suc (Suc k)]) =
         [chain_edge (Suc k)]"
proof -
  let ?P = "\<lambda>e. e \<notin> set (dict_get_list (chain_done (Suc k)) (origin e))"
  have look: "dict_get_list (chain_done (Suc k)) (origin (chain_edge j)) =
              (if j < Suc k then [chain_edge j] else [])" for j
    by (simp add: dict_get_list_def origin_chain_edge chain_done_get del: of_nat_Suc)
  have old: "filter ?P (map chain_edge [0..<Suc k]) = []"
    unfolding filter_empty_conv using look by auto
  have new: "?P (chain_edge (Suc k))"
    using look [of "Suc k"] by simp
  have "get_in_edges (descending_chain_graph n) (map int [0..<Suc (Suc k)]) =
        map chain_edge [0..<Suc k] @ [chain_edge (Suc k)]"
    using chain_get_in_edges [OF assms] by simp
  then show ?thesis
    using old new by (simp add: remaining_edges_def del: upt_Suc of_nat_Suc)
qed

lemma chain_expand:
  assumes "k < n"
  shows "expand_end_vertices (descending_chain_graph n) (chain_done (Suc k)) [chain_edge k]
           (map int [0..<Suc k]) =
         map int [0..<Suc (Suc k)]"
proof -
  have "dict_get_list (chain_done (Suc k)) (int (Suc k)) = [chain_edge k]"
    by (simp add: dict_get_list_def chain_done_get del: of_nat_Suc)
  moreover have "map int [0..<Suc (Suc k)] = map int [0..<Suc k] @ [int (Suc k)]"
    by simp
  ultimately show ?thesis
    using chain_out_edges [OF assms] by (simp add: origin_chain_edge del: of_nat_Suc upt_Suc)
qed

lemma chain_loop_body:
  assumes "Suc k < n"
  shows "loop_body (idle_renderer (descending_chain_graph n)) (chain_state k s) =
         (None, chain_state (Suc k) s)"
proof -
  have k: "k < n" using assms by simp
  have "replicate k (Info_evaluating 1) @ [Info_evaluating 1] = replicate (Suc k) (Info_evaluating 1)"
    by (simp add: replicate_append_same)
  then show ?thesis
    by (simp add: loop_body_def chain_state_def group_single idle_renderer_def
        edge_evaluation_task_def Let_def chain_record_done chain_expand [OF k]
        chain_remaining [OF assms]
        del: upt_Suc of_nat_Suc replicate.simps record_done.simps expand_end_vertices.simps)
qed

lemma long_chain_initial:
  assumes "0 < n"
  shows "initial_render_state (idle_renderer (descending_chain_graph n)) s = chain_state 0 s"
proof -
  let ?g = "descending_chain_graph n"
  let ?P = "\<lambda>v. out_degree ?g v = 0 \<and> 0 < in_degree ?g v"
  have zero: "?P 0"
    using chain_in_edges [of 0 n] assms by (simp add: chain_out_edges_0 out_degree_def in_degree_def)
  have others: "filter ?P (map int (map Suc [0..<n])) = []"
    unfolding filter_empty_conv using chain_out_edges [of _ n]
    by (auto simp add: out_degree_def simp del: of_nat_Suc)
  have "[0..<Suc n] = 0 # map Suc [0..<n]"
    by (simp add: upt_conv_Cons map_Suc_upt del: upt_Suc)
  then have "get_vertices_with_degrees_conditions ?g (\<lambda>degree. degree = 0) (\<lambda>degree. 0 < degree) = [0]"
    using zero others
    by (simp add: get_vertices_with_degrees_conditions_def
        descending_chain_graph_def [of n, THEN arg_cong, of vertices] del: upt_Suc of_nat_Suc)
  then show ?thesis
    using chain_in_edges [of 0 n] assms
    by (simp add: initial_render_state_def idle_renderer_def chain_state_def chain_done_def
        get_in_edges_def)
qed

lemma long_chain_render_loop:
  assumes "MAX_NUMBER_OF_LOOPS < n" "j < MAX_NUMBER_OF_LOOPS"
  shows "render_loop (idle_renderer (descending_chain_graph n)) (chain_state (MAX_NUMBER_OF_LOOPS - Suc j) s) =
         (None, (chain_state MAX_NUMBER_OF_LOOPS s)
                  \<lparr>logging := replicate MAX_NUMBER_OF_LOOPS (Info_evaluating 1) @ [Warning_reached_iterations]\<rparr>)"
  using assms(2)
proof (induction j)
  case 0
  have "Suc (MAX_NUMBER_OF_LOOPS - Suc 0) = MAX_NUMBER_OF_LOOPS"
    by (simp add: MAX_NUMBER_OF_LOOPS_def)
  moreover from this have "loop_body (idle_renderer (descending_chain_graph n)) (chain_state (MAX_NUMBER_OF_LOOPS - Suc 0) s) =
         (None, chain_state MAX_NUMBER_OF_LOOPS s)"
    using chain_loop_body [of "MAX_NUMBER_OF_LOOPS - Suc 0" n s] assms(1) by simp
  ultimately show ?case
    by (subst render_loop.simps) (simp add: chain_state_def)
next
  case (Suc j)
  then have step: "Suc (MAX_NUMBER_OF_LOOPS - Suc (Suc j)) = MAX_NUMBER_OF_LOOPS - Suc j"
    by simp
  have "loop_body (idle_renderer (descending_chain_graph n)) (chain_state (MAX_NUMBER_OF_LOOPS - Suc (Suc j)) s) =
         (None, chain_state (MAX_NUMBER_OF_LOOPS - Suc j) s)"
    using chain_loop_body [of "MAX_NUMBER_OF_LOOPS - Suc (Suc j)" n s] assms(1) step by simp
  moreover have "\<not> MAX_NUMBER_OF_LOOPS \<le> loops (chain_state (MAX_NUMBER_OF_LOOPS - Suc j) s :: 'a render_state)"
    using Suc.prems by (simp add: chain_state_def)
  moreover have "edges_to_render (chain_state (MAX_NUMBER_OF_LOOPS - Suc (Suc j)) s :: 'a render_state) \<noteq> []"
    by (simp add: chain_state_def)
  ultimately show ?case
    using Suc by (subst render_loop.simps) simp
qed

lemma long_chain_render:
  assumes "MAX_NUMBER_OF_LOOPS < n"
  shows "render_variables_from_local_graph (idle_renderer (descending_chain_graph n)) s =
         (None, (chain_state MAX_NUMBER_OF_LOOPS s)
                  \<lparr>logging := replicate MAX_NUMBER_OF_LOOPS (Info_evaluating 1) @
                      [Warning_reached_iterations, Info_done_evaluating_edges,
                       Info_done_evaluate_non_rendered_values]\<rparr>)"
proof -
  have "0 < n" using assms by simp
  then have "initial_render_state (idle_renderer (descending_chain_graph n)) s =
             chain_state (MAX_NUMBER_OF_LOOPS - Suc (MAX_NUMBER_OF_LOOPS - 1)) s"
    by (simp add: long_chain_initial MAX_NUMBER_OF_LOOPS_def)
  then show ?thesis
    using long_chain_render_loop [OF assms, of "MAX_NUMBER_OF_LOOPS - 1" s]
    by (simp add: render_variables_from_local_graph_def MAX_NUMBER_OF_LOOPS_def)
       (simp add: idle_renderer_def chain_state_def)
qed

text \<open>
  C6. When the loop stops at the bound (the counter is 50 when the method ends), no
  exception was raised: the method returns normally, the last records of the log are the
  warning followed by the two closing records, and the configurations were passed through
  \<open>update_vertices_configs\<close> and then \<open>evaluate_non_rendered_values\<close>. This holds whether or
  not edges remain to render; the witness is a chain of 51 edges, where one edge remains.
\<close>

theorem bound_reached_is_a_warning:
  assumes "loops (snd (render_variables_from_local_graph R s)) = MAX_NUMBER_OF_LOOPS"
  shows "fst (render_variables_from_local_graph R s) = None \<and>
         (\<exists>rs. logging (snd (render_variables_from_local_graph R s)) =
                 rs @ [Warning_reached_iterations, Info_done_evaluating_edges,
                       Info_done_evaluate_non_rendered_values]) \<and>
         configs (snd (render_variables_from_local_graph R s)) =
           evaluate_non_rendered_values R (update_vertices_configs R
             (configs (snd (render_loop R (initial_render_state R s)))))"
proof -
  obtain r st where loop: "render_loop R (initial_render_state R s) = (r, st)"
    by (cases "render_loop R (initial_render_state R s)")
  with assms have "loops st = MAX_NUMBER_OF_LOOPS"
    by (auto simp: render_variables_from_local_graph_def split: option.splits)
  moreover have "loops (initial_render_state R s) < MAX_NUMBER_OF_LOOPS"
    by (simp add: initial_render_state_def Let_def MAX_NUMBER_OF_LOOPS_def)
  ultimately have "r = None \<and> (\<exists>rs. logging st = rs @ [Warning_reached_iterations])"
    using render_loop_reaches_bound [of "initial_render_state R s" R] loop by simp
  with loop show ?thesis
    by (auto simp: render_variables_from_local_graph_def)
qed

theorem bound_reached_is_a_warning_witness:
  "loops (snd (render_variables_from_local_graph (idle_renderer (descending_chain_graph 51)) ())) =
     MAX_NUMBER_OF_LOOPS \<and>
   edges_to_render (snd (render_variables_from_local_graph
     (idle_renderer (descending_chain_graph 51)) ())) = [chain_edge 50] \<and>
   fst (render_variables_from_local_graph (idle_renderer (descending_chain_graph 51)) ()) = None \<and>
   logging (snd (render_variables_from_local_graph (idle_renderer (descending_chain_graph 51)) ())) =
     replicate 50 (Info_evaluating 1) @
     [Warning_reached_iterations, Info_done_evaluating_edges, Info_done_evaluate_non_rendered_values]"
  using bound_reached_is_a_warning [of "idle_renderer (descending_chain_graph 51)" "()"]
    long_chain_render [of 51 "()"]
  by (simp add: chain_state_def MAX_NUMBER_OF_LOOPS_def)


section \<open>Properties of the value cache\<close>

text \<open>
  C2. The slots of the cache are meant to be independent. \<open>[{}] * n\<close> repeats one reference,
  so all slots are the same dictionary: on a graph of two vertices, slot 1 is empty at
  construction, and after \<open>replace_cache[0]['key'] = v\<close> slot 1 holds \<open>key\<close> as well.
\<close>

theorem replace_cache_slots_share_one_dict:
  "cache_slot (init_replace_cache two_cycle_graph) 1 = Some [] \<and>
   cache_store (init_replace_cache two_cycle_graph) 0 ''key'' v =
     Some \<lparr>replace_cache = [0, 0], dict_objects = [(0, [(''key'', v)])]\<rparr> \<and>
   cache_slot \<lparr>replace_cache = [0, 0], dict_objects = [(0, [(''key'', v)])]\<rparr> 1 = Some [(''key'', v)]"
  by (simp add: cache_slot_def cache_store_def init_replace_cache_def list_repeat_def list_index_def
      two_cycle_graph_def dict_get_list_def Let_def)


end
